theory Spec2Isabelle
  imports Main "HOL-Library.Word"
begin

unbundle bit_operations_syntax

section \<open>Data model\<close>

type_synonym byte = "8 word"
type_synonym bytes = "byte list"

text \<open>
  A field element \<open>bls.Fr\<close> is an integer modulo the BLS modulus, kept reduced.
  A Go pointer \<open>*bls.Fr\<close> is an \<open>Fr option\<close>: \<open>None\<close> is the nil pointer.
\<close>

type_synonym Fr = nat

text \<open>
  The Go \<open>error\<close> values of both source files. \<open>ErrBlobValue\<close> is
  \<open>errors.New("invalid value in blob")\<close> of \<open>polyLinComb\<close>, \<open>ErrPointsScalars\<close> is
  \<open>errors.New("points and scalars have to be the same length")\<close> of \<open>g1LinComb\<close>,
  \<open>ErrNilSidecar\<close> is \<open>blocks.ErrNilSidecar\<close>. \<open>ErrExternal\<close> is an error returned by a
  collaborator (serialization, curve library, block accessors); \<open>ErrWrap\<close> is an
  error that wraps another one, which \<open>errors.Is\<close> looks through.
\<close>

datatype error =
    ErrInvalidBlobSlot
  | ErrInvalidBlobBeaconBlockRoot
  | ErrInvalidBlobsLength
  | ErrEmptyBlobsInSidecar
  | ErrInvalidAggregateProof
  | ErrCouldNotComputeCommitment
  | ErrMissmatchKzgs
  | ErrBlobValue
  | ErrPointsScalars
  | ErrNilSidecar
  | ErrExternal string
  | ErrWrap string error

text \<open>
  The outcome of a call: a value, a returned error, or a Go run-time panic
  (index or slice bound out of range, nil pointer dereference, explicit \<open>panic\<close>).
\<close>

datatype 'a result = Ok 'a | Err error | Panic

subsection \<open>The field\<close>

text \<open>\<open>bls.ModulusStr\<close>, the order of the BLS12-381 scalar field.\<close>

definition blsModulus :: nat where
  "blsModulus = 52435875175126190479447740508185965837690552500527637822603658699938581184513"

definition ONE :: Fr where
  "ONE = 1"

text \<open>\<open>bls.MulModFr(dst, a, b)\<close>: the product in the field.\<close>

definition MulModFr :: "Fr \<Rightarrow> Fr \<Rightarrow> Fr" where
  "MulModFr a b = (a * b) mod blsModulus"

section \<open>Field and polynomial utilities\<close>

subsection \<open>computePowers\<close>

text \<open>
  \<^verbatim>\<open>
  currentPower := bls.ONE
  powers := make([]bls.Fr, n)
  for i := range powers {
      powers[i] = currentPower
      bls.MulModFr(&currentPower, &currentPower, x)
  }
  return powers
  \<close>
  \<open>make\<close> panics on a negative length; \<open>MulModFr\<close> reads through \<open>x\<close>, so a nil
  \<open>x\<close> panics in the first iteration.
\<close>

function computePowers_loop :: "Fr option \<Rightarrow> nat \<Rightarrow> Fr list \<Rightarrow> Fr \<Rightarrow> Fr list result" where
  "computePowers_loop x i powers currentPower =
     (if i < length powers then
        (case x of
           None \<Rightarrow> Panic
         | Some xv \<Rightarrow>
             computePowers_loop x (Suc i) (powers[i := currentPower]) (MulModFr currentPower xv))
      else Ok powers)"
  by pat_completeness auto
termination
  by (relation "measure (\<lambda>(x, i, powers, c). length powers - i)") auto

declare computePowers_loop.simps [simp del]

definition computePowers :: "Fr option \<Rightarrow> int \<Rightarrow> Fr list result" where
  "computePowers x n =
     (if n < 0 then Panic
      else computePowers_loop x 0 (replicate (nat n) 0) ONE)"

subsection \<open>Collaborators\<close>

text \<open>
  The structures hashed for the two challenges, \<open>eth.BlobsAndCommitments\<close> and
  \<open>eth.PolynomialAndCommitment\<close>, both \<open>ssz.Marshaler\<close>.
\<close>

datatype container =
    BlobsAndCommitments "bytes list" "bytes list"
  | PolynomialAndCommitment "bytes list" bytes

text \<open>
  The functions \<open>blob.go\<close> calls and that are not part of it: SSZ serialization,
  \<open>hash.Hash\<close>, \<open>bytesutil.ToBytes32\<close> and \<open>ToBytes48\<close>, and the field, curve and
  pairing primitives of the \<open>bls\<close> and \<open>kzg\<close> packages over a curve group \<open>'g\<close>.
  A Go result \<open>(v, err)\<close> is a sum with the error on the left, a result \<open>(v, ok)\<close> an
  option. The development is parametric in them.
\<close>

record 'g collab =
  MarshalSSZ :: "container \<Rightarrow> error + bytes"
  Hash :: "bytes \<Rightarrow> bytes"
  ToBytes32 :: "bytes \<Rightarrow> bytes"
  ToBytes48 :: "bytes \<Rightarrow> bytes"
  FrFrom32 :: "bytes \<Rightarrow> Fr option"
  FrTo32 :: "Fr \<Rightarrow> bytes"
  PolyLinComb :: "Fr list list \<Rightarrow> Fr list \<Rightarrow> error + Fr list"
  FromCompressedG1 :: "bytes \<Rightarrow> error + 'g"
  ToCompressedG1 :: "'g \<Rightarrow> bytes"
  LinCombG1 :: "'g list \<Rightarrow> Fr list \<Rightarrow> 'g"
  EvaluatePolyInEvaluationForm :: "Fr list \<Rightarrow> Fr \<Rightarrow> Fr list \<Rightarrow> nat \<Rightarrow> Fr"
  VerifyKZGProof :: "bytes \<Rightarrow> Fr \<Rightarrow> Fr \<Rightarrow> bytes \<Rightarrow> error + bool"

text \<open>\<open>params.FieldElementsPerBlob\<close> of go-ethereum. The functions below take it as \<open>N\<close>.\<close>

definition FieldElementsPerBlob :: nat where
  "FieldElementsPerBlob = 4096"

subsection \<open>bitReversalPermutation\<close>

definition isPowerOfTwo :: "64 word \<Rightarrow> bool" where
  "isPowerOfTwo v = (v > 0 \<and> v AND (v - 1) = 0)"

text \<open>\<open>bits.Len64\<close>: the number of bits needed to write the value, 0 for 0.\<close>

fun bit_length :: "nat \<Rightarrow> nat" where
  "bit_length n = (if n = 0 then 0 else Suc (bit_length (n div 2)))"

declare bit_length.simps [simp del]

definition Len64 :: "64 word \<Rightarrow> nat" where
  "Len64 x = bit_length (unat x)"

text \<open>\<open>bits.Reverse64\<close>: the 64 bits in reversed order.\<close>

definition Reverse64 :: "64 word \<Rightarrow> 64 word" where
  "Reverse64 x = word_reverse x"

text \<open>
  The index read for position \<open>i\<close>:
  \<^verbatim>\<open>j := bits.Reverse64(uint64(i)) >> (65 - bits.Len64(params.FieldElementsPerBlob))\<close>
  \<open>Len64\<close> is at most 64, so the shift count is positive; a count of 64 or more gives 0
  in Go, as \<open>drop_bit\<close> does.
\<close>

definition bitReversalIndex :: "nat \<Rightarrow> nat \<Rightarrow> nat" where
  "bitReversalIndex N i = unat (drop_bit (65 - Len64 (of_nat N)) (Reverse64 (of_nat i)))"

text \<open>
  \<^verbatim>\<open>
  out := make([]bls.Fr, params.FieldElementsPerBlob)
  for i := range l {
      j := ...
      out[i] = l[j]
  }
  \<close>
  Both \<open>l[j]\<close> and \<open>out[i]\<close> are bounds-checked.
\<close>

function bitReversalPermutation_loop :: "nat \<Rightarrow> Fr list \<Rightarrow> nat \<Rightarrow> Fr list \<Rightarrow> Fr list result" where
  "bitReversalPermutation_loop N l i out =
     (if i < length l then
        (let j = bitReversalIndex N i in
         if j < length l \<and> i < length out
         then bitReversalPermutation_loop N l (Suc i) (out[i := l ! j])
         else Panic)
      else Ok out)"
  by pat_completeness auto
termination
  by (relation "measure (\<lambda>(N, l, i, out). length l - i)") auto

declare bitReversalPermutation_loop.simps [simp del]

definition bitReversalPermutation :: "nat \<Rightarrow> Fr list \<Rightarrow> Fr list result" where
  "bitReversalPermutation N l =
     (if \<not> isPowerOfTwo (of_nat N) then Panic
      else bitReversalPermutation_loop N l 0 (replicate N 0))"

text \<open>
  The spec's reading of the permutation: \<open>reverse_bits\<close> of an index written with
  \<open>k\<close> bits, bit \<open>b\<close> of the index becoming bit \<open>k - 1 - b\<close>.
\<close>

definition reverse_bits :: "nat \<Rightarrow> nat \<Rightarrow> nat" where
  "reverse_bits k i = horner_sum of_bool 2 (rev (map (bit i) [0..<k]))"

subsection \<open>hashToBlsField and bigToFr\<close>

text \<open>\<open>big.Int.SetBytes\<close>: the bytes read as a big-endian unsigned integer.\<close>

definition SetBytes :: "bytes \<Rightarrow> nat" where
  "SetBytes bs = foldl (\<lambda>a b. a * 256 + unat b) 0 bs"

text \<open>
  Modelled from the spec: \<open>bytesutil.ReverseByteOrder\<close> is not among the sources; the
  digest's byte order is reversed relative to its big-endian form.
\<close>

definition ReverseByteOrder :: "bytes \<Rightarrow> bytes" where
  "ReverseByteOrder bs = rev bs"

text \<open>\<open>big.Int.String\<close>: the decimal digits, and the value \<open>bls.SetFr\<close> reads back.\<close>

definition digit_char :: "nat \<Rightarrow> char" where
  "digit_char d = char_of (48 + d)"

fun big_String :: "nat \<Rightarrow> string" where
  "big_String n =
     (if n < 10 then [digit_char n] else big_String (n div 10) @ [digit_char (n mod 10)])"

declare big_String.simps [simp del]

definition decimal_value :: "string \<Rightarrow> nat" where
  "decimal_value s = foldl (\<lambda>a c. a * 10 + (of_char c - 48)) 0 s"

text \<open>
  \<open>bls.SetFr(dst, v)\<close> stores the field element written in decimal in \<open>v\<close> into
  \<open>*dst\<close>. The result is the cell \<open>dst\<close> points to after the call; a store through the
  nil pointer is a run-time panic.
\<close>

definition SetFr :: "Fr option \<Rightarrow> string \<Rightarrow> Fr option result" where
  "SetFr dst v =
     (case dst of
        None \<Rightarrow> Panic
      | Some _ \<Rightarrow> Ok (Some (decimal_value v mod blsModulus)))"

text \<open>
  \<^verbatim>\<open>
  func bigToFr(fr *bls.Fr, b *big.Int) *bls.Fr {
      bls.SetFr(fr, b.String())
      return fr
  }
  \<close>
\<close>

definition bigToFr :: "Fr option \<Rightarrow> nat \<Rightarrow> Fr option result" where
  "bigToFr fr b = SetFr fr (big_String b)"

text \<open>
  \<^verbatim>\<open>
  m, err := x.MarshalSSZ()
  if err != nil { return nil, err }
  h := hash.Hash(m)
  var b big.Int
  b.SetBytes(bytesutil.ReverseByteOrder(h[:])).Mod(&b, &blsModulus)
  var f *bls.Fr
  bls.SetFr(f, b.String())
  return f, nil
  \<close>
  \<open>f\<close> is declared as a pointer and never assigned: it is nil when \<open>SetFr\<close> receives it.
\<close>

definition hashToBlsField :: "'g collab \<Rightarrow> container \<Rightarrow> Fr option result" where
  "hashToBlsField C x =
     (case MarshalSSZ C x of
        Inl err \<Rightarrow> Err err
      | Inr m \<Rightarrow>
          (let h = Hash C m;
               b = SetBytes (ReverseByteOrder h) mod blsModulus;
               f = None
           in case SetFr f (big_String b) of
                Ok f' \<Rightarrow> Ok f'
              | Err e \<Rightarrow> Err e
              | Panic \<Rightarrow> Panic))"

subsection \<open>polyLinComb\<close>

text \<open>
  \<^verbatim>\<open>
  r := make([]bls.Fr, params.FieldElementsPerBlob)
  blob := blobs[i].Data
  for j := 0; j <= params.FieldElementsPerBlob; j++ {
      b := blob[j*32 : j*32+31]
      ok := bls.FrFrom32(&r[j], bytesutil.ToBytes32(b))
      if !ok { return nil, errors.New("invalid value in blob") }
  }
  \<close>
  The slice expression panics when its upper bound exceeds the capacity of \<open>blob\<close>
  (taken to be its length), \<open>&r[j]\<close> panics when \<open>j\<close> is not below \<open>len(r)\<close>.
\<close>

function polyLinComb_chunks :: "'g collab \<Rightarrow> nat \<Rightarrow> bytes \<Rightarrow> nat \<Rightarrow> Fr list \<Rightarrow> Fr list result" where
  "polyLinComb_chunks C N blob j r =
     (if j \<le> N then
        (if j * 32 + 31 \<le> length blob then
           (let b = take 31 (drop (j * 32) blob) in
            if j < length r then
              (case FrFrom32 C (ToBytes32 C b) of
                 None \<Rightarrow> Err ErrBlobValue
               | Some v \<Rightarrow> polyLinComb_chunks C N blob (Suc j) (r[j := v]))
            else Panic)
         else Panic)
      else Ok r)"
  by pat_completeness auto
termination
  by (relation "measure (\<lambda>(C, N, blob, j, r). Suc N - j)") auto

declare polyLinComb_chunks.simps [simp del]

text \<open>The outer loop, \<open>out[i] = r\<close> for each blob in turn.\<close>

fun polyLinComb_blobs :: "'g collab \<Rightarrow> nat \<Rightarrow> bytes list \<Rightarrow> Fr list list result" where
  "polyLinComb_blobs C N [] = Ok []"
| "polyLinComb_blobs C N (blob # blobs) =
     (case polyLinComb_chunks C N blob 0 (replicate N 0) of
        Ok r \<Rightarrow>
          (case polyLinComb_blobs C N blobs of
             Ok out \<Rightarrow> Ok (r # out)
           | Err e \<Rightarrow> Err e
           | Panic \<Rightarrow> Panic)
      | Err e \<Rightarrow> Err e
      | Panic \<Rightarrow> Panic)"

definition polyLinComb :: "'g collab \<Rightarrow> nat \<Rightarrow> bytes list \<Rightarrow> Fr list \<Rightarrow> Fr list result" where
  "polyLinComb C N blobs scalars =
     (case polyLinComb_blobs C N blobs of
        Ok out \<Rightarrow>
          (case PolyLinComb C out scalars of
             Inl e \<Rightarrow> Err e
           | Inr p \<Rightarrow> Ok p)
      | Err e \<Rightarrow> Err e
      | Panic \<Rightarrow> Panic)"

subsection \<open>g1LinComb\<close>

text \<open>
  \<^verbatim>\<open>
  for i := range g1s {
      g1, err := bls.FromCompressedG1(points[i])
      if err != nil { return nil, err }
      g1s[i] = *g1
  }
  \<close>
\<close>

fun g1LinComb_points :: "'g collab \<Rightarrow> bytes list \<Rightarrow> error + 'g list" where
  "g1LinComb_points C [] = Inr []"
| "g1LinComb_points C (p # points) =
     (case FromCompressedG1 C p of
        Inl err \<Rightarrow> Inl err
      | Inr g1 \<Rightarrow>
          (case g1LinComb_points C points of
             Inl err \<Rightarrow> Inl err
           | Inr g1s \<Rightarrow> Inr (g1 # g1s)))"

definition g1LinComb :: "'g collab \<Rightarrow> bytes list \<Rightarrow> Fr list \<Rightarrow> bytes result" where
  "g1LinComb C points scalars =
     (if length points \<noteq> length scalars then Err ErrPointsScalars
      else case g1LinComb_points C points of
             Inl err \<Rightarrow> Err err
           | Inr g1s \<Rightarrow> Ok (ToCompressedG1 C (LinCombG1 C g1s scalars)))"

section \<open>Aggregate proof verifier\<close>

text \<open>\<open>eth.BlobsSidecar\<close> as \<open>blob.go\<close> reads it; a blob is its \<open>Data\<close> bytes.\<close>

record BlobsSidecar =
  BeaconBlockRoot :: bytes
  BeaconBlockSlot :: "64 word"
  Blobs :: "bytes list"
  AggregatedProof :: bytes

definition bind_result :: "'a result \<Rightarrow> ('a \<Rightarrow> 'b result) \<Rightarrow> 'b result" where
  "bind_result m f = (case m of Ok v \<Rightarrow> f v | Err e \<Rightarrow> Err e | Panic \<Rightarrow> Panic)"

text \<open>Reading through a pointer: nil panics.\<close>

definition deref :: "'a option \<Rightarrow> 'a result" where
  "deref p = (case p of None \<Rightarrow> Panic | Some v \<Rightarrow> Ok v)"

text \<open>
  \<open>ValidateBlobsSidecar\<close>, in the order of the source: the three cheap checks, the
  first challenge, the emptiness check, the two linear combinations, the second
  challenge, the evaluation and the opening proof. \<open>rootsOfUnity\<close> is the table
  built by \<open>init\<close>. The loop filling \<open>xData.Polynomial\<close> reads
  \<open>aggregatedPoly[i]\<close> for every \<open>i < N\<close>.
\<close>

definition ValidateBlobsSidecar ::
    "'g collab \<Rightarrow> nat \<Rightarrow> Fr list \<Rightarrow> 64 word \<Rightarrow> bytes \<Rightarrow> bytes list \<Rightarrow> BlobsSidecar \<Rightarrow> unit result" where
  "ValidateBlobsSidecar C N rootsOfUnity slot root commitments sidecar =
     (if slot \<noteq> BeaconBlockSlot sidecar then Err ErrInvalidBlobSlot
      else if root \<noteq> ToBytes32 C (BeaconBlockRoot sidecar) then Err ErrInvalidBlobBeaconBlockRoot
      else if length commitments \<noteq> length (Blobs sidecar) then Err ErrInvalidBlobsLength
      else
        bind_result (hashToBlsField C (BlobsAndCommitments (Blobs sidecar) commitments)) (\<lambda>r.
        let numberOfBlobs = length (Blobs sidecar) in
        if numberOfBlobs = 0 then Err ErrEmptyBlobsInSidecar
        else
          bind_result (computePowers r (int numberOfBlobs)) (\<lambda>rPowers.
          bind_result (g1LinComb C commitments rPowers) (\<lambda>aggregatedPolyCommitment.
          bind_result (polyLinComb C N (Blobs sidecar) rPowers) (\<lambda>aggregatedPoly.
          if length aggregatedPoly < N then Panic
          else
            let xData = PolynomialAndCommitment (map (FrTo32 C) (take N aggregatedPoly))
                          aggregatedPolyCommitment in
            bind_result (hashToBlsField C xData) (\<lambda>x.
            bind_result (deref x) (\<lambda>xv.
            let y = EvaluatePolyInEvaluationForm C aggregatedPoly xv rootsOfUnity 0 in
            case VerifyKZGProof C (ToBytes48 C aggregatedPolyCommitment) xv y
                   (ToBytes48 C (AggregatedProof sidecar)) of
              Inl err \<Rightarrow> Err err
            | Inr b \<Rightarrow> if \<not> b then Err ErrInvalidAggregateProof else Ok ())))))))"

section \<open>Per-blob commitment verifier\<close>

text \<open>
  The older \<open>eth.BlobsSidecar\<close> read by \<open>VerifyBlobsSidecar\<close>: a blob is a list of
  byte slices, one per field element.
\<close>

record BlobsSidecar_p0 =
  BeaconBlockRoot_p0 :: bytes
  BeaconBlockSlot_p0 :: "64 word"
  Blobs_p0 :: "bytes list list"

text \<open>\<open>var f gethType.BLSFieldElement; copy(f[:], b)\<close>: a zeroed 32-byte array
  receives the first \<open>min(32, len(b))\<close> bytes of \<open>b\<close>.\<close>

definition copyFieldElement :: "bytes \<Rightarrow> bytes" where
  "copyFieldElement b = take 32 b @ replicate (32 - length b) 0"

text \<open>
  \<^verbatim>\<open>
  var blob gethType.Blob
  for i, b := range blobsSidecar.Blobs[i].Blob {
      var f gethType.BLSFieldElement
      copy(f[:], b)
      blob[i] = f
  }
  \<close>
  \<open>blob\<close> is an array of \<open>N\<close> field elements; \<open>blob[i]\<close> is bounds-checked.
\<close>

function decodeBlob_loop :: "bytes list \<Rightarrow> nat \<Rightarrow> bytes list \<Rightarrow> bytes list result" where
  "decodeBlob_loop src i blob =
     (if i < length src then
        (if i < length blob
         then decodeBlob_loop src (Suc i) (blob[i := copyFieldElement (src ! i)])
         else Panic)
      else Ok blob)"
  by pat_completeness auto
termination
  by (relation "measure (\<lambda>(src, i, blob). length src - i)") auto

declare decodeBlob_loop.simps [simp del]

definition decodeBlob :: "nat \<Rightarrow> bytes list \<Rightarrow> bytes list result" where
  "decodeBlob N src = decodeBlob_loop src 0 (replicate N (replicate 32 0))"

text \<open>
  The commitment recomputed for one blob: the decoded array handed to
  \<open>blob.ComputeCommitment()\<close> of go-ethereum, which returns \<open>(kzg, ok)\<close>.
\<close>

definition blobCommitment :: "(bytes list \<Rightarrow> bytes option) \<Rightarrow> nat \<Rightarrow> bytes list \<Rightarrow> bytes option result" where
  "blobCommitment ComputeCommitment N src =
     bind_result (decodeBlob N src) (\<lambda>blob. Ok (ComputeCommitment blob))"

text \<open>
  The loop over \<open>expectedKZGs\<close>, reading \<open>blobsSidecar.Blobs[i]\<close> at the same index.
\<close>

fun VerifyBlobsSidecar_loop ::
    "(bytes list \<Rightarrow> bytes option) \<Rightarrow> nat \<Rightarrow> bytes list \<Rightarrow> bytes list list \<Rightarrow> unit result" where
  "VerifyBlobsSidecar_loop cc N [] blobs = Ok ()"
| "VerifyBlobsSidecar_loop cc N (expectedKzg # ks) [] = Panic"
| "VerifyBlobsSidecar_loop cc N (expectedKzg # ks) (b # blobs) =
     bind_result (blobCommitment cc N b) (\<lambda>res.
       case res of
         None \<Rightarrow> Err ErrCouldNotComputeCommitment
       | Some kzg \<Rightarrow>
           if kzg \<noteq> expectedKzg then Err ErrMissmatchKzgs
           else VerifyBlobsSidecar_loop cc N ks blobs)"

definition VerifyBlobsSidecar ::
    "(bytes \<Rightarrow> bytes) \<Rightarrow> (bytes list \<Rightarrow> bytes option) \<Rightarrow> nat \<Rightarrow>
     64 word \<Rightarrow> bytes \<Rightarrow> bytes list \<Rightarrow> BlobsSidecar_p0 \<Rightarrow> unit result" where
  "VerifyBlobsSidecar toBytes32 cc N slot beaconBlockRoot expectedKZGs blobsSidecar =
     (if slot \<noteq> BeaconBlockSlot_p0 blobsSidecar then Err ErrInvalidBlobSlot
      else if beaconBlockRoot \<noteq> toBytes32 (BeaconBlockRoot_p0 blobsSidecar)
        then Err ErrInvalidBlobBeaconBlockRoot
      else if length expectedKZGs \<noteq> length (Blobs_p0 blobsSidecar) then Err ErrInvalidBlobsLength
      else VerifyBlobsSidecar_loop cc N expectedKZGs (Blobs_p0 blobsSidecar))"

section \<open>Sidecar presence checks\<close>

text \<open>
  A block as the two predicates see it: its version, what \<open>b.Body().BlobKzgs()\<close>
  returns, and for a signed block the error returned by \<open>b.SideCar()\<close> (\<open>None\<close> is
  nil). \<open>blocks.IsPreEIP4844Version\<close> is a parameter.
\<close>

record BeaconBlock =
  Version :: int
  BlobKzgs :: "error + bytes list"

record SignedBeaconBlock =
  Block :: BeaconBlock
  SideCar :: "error option"

text \<open>\<open>errors.Is(err, target)\<close>: \<open>err\<close> or an error it wraps is \<open>target\<close>.\<close>

fun errors_Is :: "error option \<Rightarrow> error \<Rightarrow> bool" where
  "errors_Is None target = False"
| "errors_Is (Some (ErrWrap msg e)) target = (ErrWrap msg e = target \<or> errors_Is (Some e) target)"
| "errors_Is (Some e) target = (e = target)"

definition BlockContainsKZGs :: "(int \<Rightarrow> bool) \<Rightarrow> BeaconBlock \<Rightarrow> bool \<times> error option" where
  "BlockContainsKZGs IsPreEIP4844Version b =
     (if IsPreEIP4844Version (Version b) then (False, None)
      else case BlobKzgs b of
             Inl err \<Rightarrow> (False, Some err)
           | Inr blobKzgs \<Rightarrow> (length blobKzgs \<noteq> 0, None))"

definition BlockContainsSidecar :: "(int \<Rightarrow> bool) \<Rightarrow> SignedBeaconBlock \<Rightarrow> bool \<times> error option" where
  "BlockContainsSidecar IsPreEIP4844Version b =
     (case BlockContainsKZGs IsPreEIP4844Version (Block b) of
        (hasKzg, Some err) \<Rightarrow> (False, Some err)
      | (hasKzg, None) \<Rightarrow>
          if \<not> hasKzg then (False, None)
          else let err = SideCar b in
               if errors_Is err ErrNilSidecar then (False, None)
               else if err \<noteq> None then (False, err)
               else (True, None))"

section \<open>An instance of the collaborators\<close>

text \<open>
  A small instance on which the model can be run: little-endian field encoding,
  zero-padding conversions, concatenation as serialization, and stand-ins of the
  right shape for the digest, the curve group (the naturals under addition) and
  the pairing check.
\<close>

definition le_value :: "bytes \<Rightarrow> nat" where
  "le_value bs = foldr (\<lambda>b a. unat b + 256 * a) bs 0"

fun le_bytes :: "nat \<Rightarrow> nat \<Rightarrow> bytes" where
  "le_bytes 0 v = []"
| "le_bytes (Suc n) v = of_nat (v mod 256) # le_bytes n (v div 256)"

definition pad_bytes :: "nat \<Rightarrow> bytes \<Rightarrow> bytes" where
  "pad_bytes n b = take n b @ replicate (n - length b) 0"

definition exampleCollab :: "nat collab" where
  "exampleCollab = \<lparr>
     MarshalSSZ = (\<lambda>x. case x of
         BlobsAndCommitments bs cs \<Rightarrow> Inr (concat bs @ concat cs)
       | PolynomialAndCommitment ps c \<Rightarrow> Inr (concat ps @ c)),
     Hash = pad_bytes 32,
     ToBytes32 = pad_bytes 32,
     ToBytes48 = pad_bytes 48,
     FrFrom32 = (\<lambda>b. if le_value b < blsModulus then Some (le_value b) else None),
     FrTo32 = le_bytes 32,
     PolyLinComb = (\<lambda>vs ss. Inr (foldl (\<lambda>acc (v, s). map2 (\<lambda>a x. (a + s * x) mod blsModulus) acc v)
         (replicate (case vs of [] \<Rightarrow> 0 | v # _ \<Rightarrow> length v) 0) (zip vs ss))),
     FromCompressedG1 = (\<lambda>b. if length b = 48 then Inr (le_value b)
         else Inl (ErrExternal ''invalid compressed point'')),
     ToCompressedG1 = le_bytes 48,
     LinCombG1 = (\<lambda>gs ss. sum_list (map2 (*) gs ss)),
     EvaluatePolyInEvaluationForm = (\<lambda>p x roots k. 0),
     VerifyKZGProof = (\<lambda>c x y p. Inr True) \<rparr>"

section \<open>Properties\<close>

subsection \<open>computePowers\<close>

lemma blsModulus_gt_1: "1 < blsModulus"
  by (simp add: blsModulus_def)

lemma computePowers_loop_eq:
  "i \<le> length powers \<Longrightarrow> c < blsModulus \<Longrightarrow>
   computePowers_loop (Some x) i powers c =
     Ok (take i powers @ map (\<lambda>k. (c * x ^ k) mod blsModulus) [0..<length powers - i])"
proof (induction "Some x" i powers c rule: computePowers_loop.induct)
  case (1 i powers c)
  show ?case
  proof (cases "i < length powers")
    case False
    then show ?thesis
      by (subst computePowers_loop.simps) simp
  next
    case True
    let ?c' = "MulModFr c x"
    let ?ps' = "powers[i := c]"
    have c': "?c' < blsModulus"
      using blsModulus_gt_1 by (simp add: MulModFr_def)
    have IH: "computePowers_loop (Some x) (Suc i) ?ps' ?c' =
        Ok (take (Suc i) ?ps' @ map (\<lambda>k. (?c' * x ^ k) mod blsModulus) [0..<length ?ps' - Suc i])"
      using "1.hyps" [OF True refl] True c' by simp
    have step: "(?c' * x ^ k) mod blsModulus = (c * x ^ Suc k) mod blsModulus" for k
      by (simp add: MulModFr_def mod_mult_left_eq mult.assoc)
    have tk: "take (Suc i) ?ps' = take i powers @ [c]"
      using True by (simp add: take_Suc_conv_app_nth)
    have len: "length powers - i = Suc (length powers - Suc i)"
      using True by simp
    have m: "map (\<lambda>k. (c * x ^ k) mod blsModulus) [0..<length powers - i] =
        c # map (\<lambda>k. (c * x ^ Suc k) mod blsModulus) [0..<length powers - Suc i]"
      unfolding len using "1.prems"(2)
      by (simp add: upt_rec [of 0] map_Suc_upt [symmetric] del: upt_Suc)
    have "computePowers_loop (Some x) i powers c =
        computePowers_loop (Some x) (Suc i) ?ps' ?c'"
      using True by (subst computePowers_loop.simps) simp
    then show ?thesis
      using IH by (simp only: step tk m length_list_update append_Cons append_Nil append_assoc)
  qed
qed

lemma computePowers_eq:
  assumes "0 \<le> n" and "x < blsModulus"
  shows "computePowers (Some x) n = Ok (map (\<lambda>k. x ^ k mod blsModulus) [0..<nat n])"
  using assms blsModulus_gt_1 computePowers_loop_eq [of 0 "replicate (nat n) 0" ONE x]
  by (simp add: computePowers_def ONE_def)

text \<open>
  C6. For every \<open>n \<ge> 1\<close> and every field element \<open>x\<close> (also \<open>x = 0\<close>),
  \<open>computePowers(x, n)\<close> returns a sequence of length \<open>n\<close> whose first element is 1
  and whose \<open>k\<close>-th element is \<open>x^k mod P\<close> for every \<open>k\<close> in \<open>[0, n)\<close>.
\<close>

theorem computePowers_powers:
  assumes "1 \<le> n" and "x < blsModulus"
  shows "\<exists>powers. computePowers (Some x) n = Ok powers
           \<and> int (length powers) = n
           \<and> powers ! 0 = 1
           \<and> (\<forall>k < nat n. powers ! k = x ^ k mod blsModulus)"
proof -
  have e: "computePowers (Some x) n = Ok (map (\<lambda>k. x ^ k mod blsModulus) [0..<nat n])"
    using assms by (simp add: computePowers_eq)
  have "0 < nat n" using assms(1) by simp
  then have z: "map (\<lambda>k. x ^ k mod blsModulus) [0..<nat n] ! 0 = 1"
    using blsModulus_gt_1 by simp
  show ?thesis
    using e z assms(1) by simp
qed

theorem computePowers_powers_witness:
  "(1::int) \<le> 3 \<and> (0::nat) < blsModulus
   \<and> (\<exists>powers. computePowers (Some 0) 3 = Ok powers \<and> int (length powers) = 3
          \<and> powers ! 0 = 1 \<and> powers ! 1 = 0 \<and> powers ! 2 = 0)"
proof -
  have P: "(0::nat) < blsModulus"
    by (simp add: blsModulus_def)
  obtain ps where ps: "computePowers (Some 0) 3 = Ok ps" "int (length ps) = 3"
      "ps ! 0 = 1" "\<forall>k < nat 3. ps ! k = 0 ^ k mod blsModulus"
    using computePowers_powers [of 3 0] P by auto
  have "ps ! 1 = 0 ^ 1 mod blsModulus" "ps ! 2 = 0 ^ 2 mod blsModulus"
    using ps(4) by simp_all
  then have "ps ! 1 = 0" "ps ! 2 = 0"
    by simp_all
  then show ?thesis using ps(1,2,3) P by simp
qed

subsection \<open>g1LinComb\<close>

lemma g1LinComb_points_Inl:
  "g1LinComb_points C points = Inl e \<Longrightarrow> \<exists>p \<in> set points. FromCompressedG1 C p = Inl e"
  by (induction points arbitrary: e) (auto split: sum.splits)

lemma g1LinComb_points_Inr:
  "(\<forall>p \<in> set points. \<not> isl (FromCompressedG1 C p)) \<Longrightarrow>
   g1LinComb_points C points = Inr (map (\<lambda>p. projr (FromCompressedG1 C p)) points)"
  by (induction points) (auto split: sum.splits)

lemma g1LinComb_points_isl:
  "isl (g1LinComb_points C points) \<longleftrightarrow> (\<exists>p \<in> set points. isl (FromCompressedG1 C p))"
  by (induction points) (auto split: sum.splits)

lemma le_value_zeros: "(\<forall>b \<in> set bs. b = 0) \<Longrightarrow> le_value bs = 0"
  by (induction bs) (auto simp: le_value_def)

lemma le_bytes_zero: "le_bytes n 0 = replicate n 0"
  by (induction n) auto

text \<open>
  C7. With \<open>len(points) \<noteq> len(scalars)\<close>, \<open>g1LinComb\<close> returns the length error and does
  not panic. With equal lengths it fails, with the error of the decompression, exactly
  when some point fails to decompress, and otherwise returns the compressed linear
  combination of the decompressed points.
\<close>

theorem g1LinComb_spec:
  "(length points \<noteq> length scalars \<longrightarrow> g1LinComb C points scalars = Err ErrPointsScalars)
   \<and> (length points = length scalars \<longrightarrow>
        ((\<exists>p \<in> set points. isl (FromCompressedG1 C p)) \<longrightarrow>
           (\<exists>p \<in> set points. \<exists>e. FromCompressedG1 C p = Inl e \<and> g1LinComb C points scalars = Err e))
      \<and> ((\<forall>p \<in> set points. \<not> isl (FromCompressedG1 C p)) \<longrightarrow>
           g1LinComb C points scalars =
             Ok (ToCompressedG1 C (LinCombG1 C (map (\<lambda>p. projr (FromCompressedG1 C p)) points) scalars))))"
proof (intro conjI impI)
  assume "length points \<noteq> length scalars"
  then show "g1LinComb C points scalars = Err ErrPointsScalars"
    by (simp add: g1LinComb_def)
next
  assume len: "length points = length scalars"
    and bad: "\<exists>p \<in> set points. isl (FromCompressedG1 C p)"
  then have "isl (g1LinComb_points C points)"
    by (simp add: g1LinComb_points_isl)
  then obtain e where e: "g1LinComb_points C points = Inl e"
    by (cases "g1LinComb_points C points") auto
  then obtain p where "p \<in> set points" "FromCompressedG1 C p = Inl e"
    using g1LinComb_points_Inl by blast
  moreover have "g1LinComb C points scalars = Err e"
    using len e by (simp add: g1LinComb_def)
  ultimately show "\<exists>p \<in> set points. \<exists>e. FromCompressedG1 C p = Inl e \<and> g1LinComb C points scalars = Err e"
    by blast
next
  assume len: "length points = length scalars"
    and good: "\<forall>p \<in> set points. \<not> isl (FromCompressedG1 C p)"
  then show "g1LinComb C points scalars =
      Ok (ToCompressedG1 C (LinCombG1 C (map (\<lambda>p. projr (FromCompressedG1 C p)) points) scalars))"
    by (simp add: g1LinComb_def g1LinComb_points_Inr)
qed

theorem g1LinComb_spec_witness:
  "g1LinComb exampleCollab [replicate 48 0] [] = Err ErrPointsScalars
   \<and> g1LinComb exampleCollab [[1]] [2] = Err (ErrExternal ''invalid compressed point'')
   \<and> g1LinComb exampleCollab [replicate 48 0] [2] = Ok (replicate 48 0)"
proof -
  have z: "le_value (replicate 48 0) = 0"
    by (simp add: le_value_zeros)
  have a: "g1LinComb exampleCollab [replicate 48 0] [] = Err ErrPointsScalars"
    using g1LinComb_spec [of "[replicate 48 0]" "[]" exampleCollab] by simp
  have b: "g1LinComb exampleCollab [[1]] [2] = Err (ErrExternal ''invalid compressed point'')"
    using g1LinComb_spec [of "[[1]]" "[2]" exampleCollab] by (simp add: exampleCollab_def)
  have c: "g1LinComb exampleCollab [replicate 48 0] [2] = Ok (replicate 48 0)"
    using g1LinComb_spec [of "[replicate 48 0]" "[2]" exampleCollab]
    by (simp add: exampleCollab_def z le_bytes_zero)
  show ?thesis using a b c by simp
qed

subsection \<open>hashToBlsField\<close>

lemma hashToBlsField_cases:
  "hashToBlsField C x = (case MarshalSSZ C x of Inl err \<Rightarrow> Err err | Inr m \<Rightarrow> Panic)"
  by (simp add: hashToBlsField_def SetFr_def Let_def split: sum.splits)

text \<open>The sibling \<open>bigToFr\<close>, called with the address of a table entry, does not panic.\<close>

lemma bigToFr_valid_pointer:
  "bigToFr (Some v) b = Ok (Some (decimal_value (big_String b) mod blsModulus))"
  by (simp add: bigToFr_def SetFr_def)

text \<open>
  C2. The claim: whenever the input serializes, \<open>hashToField\<close> returns the digest of
  the serialized bytes, read little-endian and reduced modulo \<open>P\<close>, and returns
  normally. The code does not: the pointer handed to \<open>bls.SetFr\<close> is nil, so the
  call panics whenever serialization succeeds.
\<close>

theorem hashToBlsField_nil_pointer:
  "MarshalSSZ C x = Inr m \<Longrightarrow> hashToBlsField C x = Panic"
  by (simp add: hashToBlsField_cases)

theorem hashToBlsField_nil_pointer_witness:
  "MarshalSSZ exampleCollab (BlobsAndCommitments [] []) = Inr []
   \<and> hashToBlsField exampleCollab (BlobsAndCommitments [] []) = Panic"
  using hashToBlsField_nil_pointer [of exampleCollab "BlobsAndCommitments [] []" "[]"]
  by (simp add: exampleCollab_def)

subsection \<open>Per-blob verification of an empty sidecar\<close>

text \<open>
  C9. With matching slot and root and with \<open>expectedKZGs\<close> and the blobs both empty,
  \<open>VerifyBlobsSidecar\<close> succeeds: the per-blob path has no emptiness check and the
  loop runs zero times.
\<close>

theorem VerifyBlobsSidecar_empty:
  assumes "slot = BeaconBlockSlot_p0 sc"
    and "root = toBytes32 (BeaconBlockRoot_p0 sc)"
    and "expectedKZGs = []" and "Blobs_p0 sc = []"
  shows "VerifyBlobsSidecar toBytes32 cc N slot root expectedKZGs sc = Ok ()"
  using assms by (simp add: VerifyBlobsSidecar_def)

theorem VerifyBlobsSidecar_empty_witness:
  "VerifyBlobsSidecar (pad_bytes 32) (\<lambda>blob. None) FieldElementsPerBlob 7 (replicate 32 0) []
     \<lparr>BeaconBlockRoot_p0 = [], BeaconBlockSlot_p0 = 7, Blobs_p0 = []\<rparr> = Ok ()"
  using VerifyBlobsSidecar_empty [of 7 "\<lparr>BeaconBlockRoot_p0 = [], BeaconBlockSlot_p0 = 7, Blobs_p0 = []\<rparr>"
      "replicate 32 0" "pad_bytes 32" "[]" "\<lambda>blob. None" FieldElementsPerBlob]
  by (simp add: pad_bytes_def)

subsection \<open>Sidecar presence checks\<close>

text \<open>
  C10. Whenever \<open>BlockContainsKZGs\<close> or \<open>BlockContainsSidecar\<close> returns a non-nil error,
  the boolean returned with it is false.
\<close>

theorem presence_error_implies_false:
  "(snd (BlockContainsKZGs isPre b) \<noteq> None \<longrightarrow> \<not> fst (BlockContainsKZGs isPre b))
   \<and> (snd (BlockContainsSidecar isPre sb) \<noteq> None \<longrightarrow> \<not> fst (BlockContainsSidecar isPre sb))"
  by (auto simp: BlockContainsKZGs_def BlockContainsSidecar_def Let_def
           split: sum.splits option.splits prod.splits if_splits)

theorem presence_error_implies_false_witness:
  "snd (BlockContainsKZGs (\<lambda>v. v < 4) \<lparr>Version = 4, BlobKzgs = Inl (ErrExternal ''no body'')\<rparr>) \<noteq> None
   \<and> \<not> fst (BlockContainsKZGs (\<lambda>v. v < 4) \<lparr>Version = 4, BlobKzgs = Inl (ErrExternal ''no body'')\<rparr>)
   \<and> snd (BlockContainsSidecar (\<lambda>v. v < 4)
        \<lparr>Block = \<lparr>Version = 4, BlobKzgs = Inr [[1]]\<rparr>, SideCar = Some (ErrExternal ''broken'')\<rparr>) \<noteq> None
   \<and> \<not> fst (BlockContainsSidecar (\<lambda>v. v < 4)
        \<lparr>Block = \<lparr>Version = 4, BlobKzgs = Inr [[1]]\<rparr>, SideCar = Some (ErrExternal ''broken'')\<rparr>)"
  using presence_error_implies_false [of "\<lambda>v. v < 4"
      "\<lparr>Version = 4, BlobKzgs = Inl (ErrExternal ''no body'')\<rparr>"
      "\<lparr>Block = \<lparr>Version = 4, BlobKzgs = Inr [[1]]\<rparr>, SideCar = Some (ErrExternal ''broken'')\<rparr>"]
  by (simp add: BlockContainsKZGs_def BlockContainsSidecar_def)

subsection \<open>Aggregate verification of an empty sidecar\<close>

text \<open>
  C3. The claim: an empty sidecar with matching slot, root and lengths fails with
  \<open>ErrEmptyBlobsInSidecar\<close>, no challenge being derived for it. The code does not:
  it calls \<open>hashToBlsField\<close> before it looks at the number of blobs, and that call
  panics on its nil pointer whenever serialization succeeds, so the return of
  \<open>ErrEmptyBlobsInSidecar\<close> is never reached. The result is the serialization error
  or a panic.
\<close>

theorem ValidateBlobsSidecar_empty_sidecar:
  assumes "slot = BeaconBlockSlot sc"
    and "root = ToBytes32 C (BeaconBlockRoot sc)"
    and "commitments = []" and "Blobs sc = []"
  shows "ValidateBlobsSidecar C N roots slot root commitments sc =
     (case MarshalSSZ C (BlobsAndCommitments [] []) of
        Inl err \<Rightarrow> Err err
      | Inr m \<Rightarrow> Panic)"
  using assms
  by (simp add: ValidateBlobsSidecar_def bind_result_def hashToBlsField_cases split: sum.splits)

theorem ValidateBlobsSidecar_empty_sidecar_witness:
  "ValidateBlobsSidecar exampleCollab FieldElementsPerBlob [] 7 (replicate 32 0) []
      \<lparr>BeaconBlockRoot = replicate 32 0, BeaconBlockSlot = 7, Blobs = [], AggregatedProof = []\<rparr> = Panic
   \<and> ValidateBlobsSidecar exampleCollab FieldElementsPerBlob [] 7 (replicate 32 0) []
      \<lparr>BeaconBlockRoot = replicate 32 0, BeaconBlockSlot = 7, Blobs = [], AggregatedProof = []\<rparr>
        \<noteq> Err ErrEmptyBlobsInSidecar"
  using ValidateBlobsSidecar_empty_sidecar [of 7
      "\<lparr>BeaconBlockRoot = replicate 32 0, BeaconBlockSlot = 7, Blobs = [], AggregatedProof = []\<rparr>"
      "replicate 32 0" exampleCollab "[]" FieldElementsPerBlob "[]"]
  by (simp add: exampleCollab_def pad_bytes_def)

subsection \<open>polyLinComb\<close>

lemma polyLinComb_chunks_not_Ok:
  "j \<le> N \<Longrightarrow> length r \<le> N \<Longrightarrow> polyLinComb_chunks C N blob j r \<noteq> Ok out"
proof (induction C N blob j r rule: polyLinComb_chunks.induct)
  case (1 C N blob j r)
  show ?case
  proof (cases "j * 32 + 31 \<le> length blob \<and> j < length r")
    case False
    then show ?thesis
      using "1.prems" by (subst polyLinComb_chunks.simps) (auto simp: Let_def)
  next
    case True
    show ?thesis
    proof (cases "FrFrom32 C (ToBytes32 C (take 31 (drop (j * 32) blob)))")
      case None
      then show ?thesis
        using True "1.prems" by (subst polyLinComb_chunks.simps) (simp add: Let_def)
    next
      case (Some v)
      have "polyLinComb_chunks C N blob (Suc j) (r[j := v]) \<noteq> Ok out"
        using "1.IH" [OF "1.prems"(1) _ refl _ Some] True "1.prems" by simp
      then show ?thesis
        using True "1.prems" Some by (subst polyLinComb_chunks.simps) (simp add: Let_def)
    qed
  qed
qed

lemma polyLinComb_chunks_Panic:
  "j \<le> N \<Longrightarrow> length r = N \<Longrightarrow>
   \<forall>i < N. FrFrom32 C (ToBytes32 C (take 31 (drop (i * 32) blob))) \<noteq> None \<Longrightarrow>
   polyLinComb_chunks C N blob j r = Panic"
proof (induction C N blob j r rule: polyLinComb_chunks.induct)
  case (1 C N blob j r)
  show ?case
  proof (cases "j * 32 + 31 \<le> length blob \<and> j < length r")
    case False
    then show ?thesis
      using "1.prems" by (subst polyLinComb_chunks.simps) (auto simp: Let_def)
  next
    case True
    then have "j < N" using "1.prems" by simp
    then obtain v where v: "FrFrom32 C (ToBytes32 C (take 31 (drop (j * 32) blob))) = Some v"
      using "1.prems"(3) by auto
    have "polyLinComb_chunks C N blob (Suc j) (r[j := v]) = Panic"
      using "1.IH" [OF "1.prems"(1) _ refl _ v] True "1.prems" by simp
    then show ?thesis
      using True "1.prems" v by (subst polyLinComb_chunks.simps) (simp add: Let_def)
  qed
qed

lemma polyLinComb_chunks_Err:
  "polyLinComb_chunks C N blob j r = Err e \<Longrightarrow> e = ErrBlobValue"
proof (induction C N blob j r rule: polyLinComb_chunks.induct)
  case (1 C N blob j r)
  from "1.prems" show ?case
    by (subst (asm) polyLinComb_chunks.simps)
       (auto simp: Let_def split: if_splits option.splits intro: "1.IH")
qed

text \<open>
  C1. The claim: for blobs of exactly \<open>N * 32\<close> bytes \<open>polyLinComb\<close> returns the
  linear combination, decoding only chunks inside each blob and never reading past the
  last one. The code does not: the chunk loop runs to \<open>j = N\<close> inclusive, so for a
  non-empty list of blobs it never returns a polynomial; it returns the decoding error
  or panics, and panics whenever every chunk of every blob decodes.
\<close>

theorem polyLinComb_off_by_one:
  assumes "blobs \<noteq> []"
  shows "(polyLinComb C N blobs scalars = Panic \<or> polyLinComb C N blobs scalars = Err ErrBlobValue)
    \<and> ((\<forall>blob \<in> set blobs. \<forall>i < N. FrFrom32 C (ToBytes32 C (take 31 (drop (i * 32) blob))) \<noteq> None)
        \<longrightarrow> polyLinComb C N blobs scalars = Panic)"
proof -
  obtain blob rest where b: "blobs = blob # rest"
    using assms by (cases blobs) auto
  let ?r = "polyLinComb_chunks C N blob 0 (replicate N 0)"
  have nok: "\<And>out. ?r \<noteq> Ok out"
    by (rule polyLinComb_chunks_not_Ok) simp_all
  have e: "polyLinComb C N blobs scalars = ?r"
    using nok b by (cases ?r) (auto simp: polyLinComb_def)
  have 1: "?r = Panic \<or> ?r = Err ErrBlobValue"
    using nok polyLinComb_chunks_Err [of C N blob 0 "replicate N 0"] by (cases ?r) auto
  have 2: "?r = Panic"
    if "\<forall>blob \<in> set blobs. \<forall>i < N. FrFrom32 C (ToBytes32 C (take 31 (drop (i * 32) blob))) \<noteq> None"
    using that b by (intro polyLinComb_chunks_Panic) simp_all
  show ?thesis using e 1 2 by simp
qed

theorem polyLinComb_off_by_one_witness:
  "[replicate (FieldElementsPerBlob * 32) (0::byte)] \<noteq> []
   \<and> polyLinComb exampleCollab FieldElementsPerBlob [replicate (FieldElementsPerBlob * 32) 0] [1] = Panic"
proof -
  have "FrFrom32 exampleCollab (ToBytes32 exampleCollab
          (take 31 (drop (i * 32) (replicate (FieldElementsPerBlob * 32) 0)))) \<noteq> None" for i
  proof -
    have "le_value (pad_bytes 32 (take 31 (drop (i * 32) (replicate (FieldElementsPerBlob * 32) 0)))) = 0"
      by (rule le_value_zeros) (auto simp: pad_bytes_def dest: in_set_takeD)
    then show ?thesis
      by (simp add: exampleCollab_def blsModulus_def)
  qed
  note dec = this
  have prem: "\<forall>blob \<in> set [replicate (FieldElementsPerBlob * 32) (0::byte)]. \<forall>i < FieldElementsPerBlob.
      FrFrom32 exampleCollab (ToBytes32 exampleCollab (take 31 (drop (i * 32) blob))) \<noteq> None"
  proof (intro ballI allI impI)
    fix blob :: bytes and i
    assume "blob \<in> set [replicate (FieldElementsPerBlob * 32) 0]"
    then have "blob = replicate (FieldElementsPerBlob * 32) 0"
      by simp
    then show "FrFrom32 exampleCollab (ToBytes32 exampleCollab (take 31 (drop (i * 32) blob))) \<noteq> None"
      using dec [of i] by blast
  qed
  have ne: "[replicate (FieldElementsPerBlob * 32) (0::byte)] \<noteq> []"
    by simp
  show ?thesis
    using polyLinComb_off_by_one [OF ne, of exampleCollab FieldElementsPerBlob "[1]"] prem ne
    by blast
qed

subsection \<open>Decoding a blob in the per-blob path\<close>

lemma decodeBlob_loop_eq:
  "i \<le> length src \<Longrightarrow> length src \<le> length blob \<Longrightarrow>
   decodeBlob_loop src i blob =
     Ok (take i blob @ map copyFieldElement (drop i src) @ drop (length src) blob)"
proof (induction src i blob rule: decodeBlob_loop.induct)
  case (1 src i blob)
  show ?case
  proof (cases "i < length src")
    case False
    then have "i = length src" using "1.prems" by simp
    then show ?thesis
      by (subst decodeBlob_loop.simps) simp
  next
    case True
    let ?blob' = "blob[i := copyFieldElement (src ! i)]"
    have ib: "i < length blob" using True "1.prems" by simp
    have IH: "decodeBlob_loop src (Suc i) ?blob' =
        Ok (take (Suc i) ?blob' @ map copyFieldElement (drop (Suc i) src) @ drop (length src) ?blob')"
      using "1.IH" [OF True ib] True "1.prems" by simp
    have tk: "take (Suc i) ?blob' = take i blob @ [copyFieldElement (src ! i)]"
      using ib by (simp add: take_Suc_conv_app_nth)
    have dr: "drop (length src) ?blob' = drop (length src) blob"
      using True by simp
    have sr: "drop i src = src ! i # drop (Suc i) src"
      using True by (simp add: Cons_nth_drop_Suc)
    have "decodeBlob_loop src i blob = decodeBlob_loop src (Suc i) ?blob'"
      using True ib by (subst decodeBlob_loop.simps) simp
    then show ?thesis
      by (simp add: IH tk dr sr)
  qed
qed

lemma decodeBlob_eq:
  "length src \<le> N \<Longrightarrow>
   decodeBlob N src = Ok (map copyFieldElement src @ replicate (N - length src) (replicate 32 0))"
  by (simp add: decodeBlob_def decodeBlob_loop_eq)

lemma copyFieldElement_32: "length b = 32 \<Longrightarrow> copyFieldElement b = b"
  by (simp add: copyFieldElement_def)

text \<open>
  C4. The claim: the per-blob decoding uses only the low 31 bytes of each 32-byte
  chunk and discards the high byte. In \<open>VerifyBlobsSidecar\<close> it does not: \<open>copy\<close>
  takes all 32 bytes. As amended: every 32-byte chunk of a blob of at most \<open>N\<close>
  chunks is copied whole, high byte included, into the decoded array, whose remaining
  elements are zero.
\<close>

theorem decodeBlob_copies_all_bytes:
  assumes "length src \<le> N" and "\<forall>b \<in> set src. length b = 32"
  shows "decodeBlob N src = Ok (src @ replicate (N - length src) (replicate 32 0))"
proof -
  have "map copyFieldElement src = src"
    using assms(2) by (simp add: map_idI copyFieldElement_32)
  then show ?thesis
    using assms(1) by (simp add: decodeBlob_eq)
qed

theorem decodeBlob_copies_all_bytes_witness:
  "decodeBlob FieldElementsPerBlob [replicate 31 0 @ [1]] =
     Ok ([replicate 31 0 @ [1]] @ replicate (FieldElementsPerBlob - 1) (replicate 32 0))"
  using decodeBlob_copies_all_bytes [of "[replicate 31 0 @ [1]]" FieldElementsPerBlob]
  by (simp add: FieldElementsPerBlob_def)

text \<open>
  The claim as stated fails: two chunks that agree on their low 31 bytes and differ in
  the high byte decode differently.
\<close>

theorem decodeBlob_high_byte_counterexample:
  "take 31 (replicate 31 0 @ [1 :: byte]) = take 31 (replicate 31 0 @ [0])
   \<and> decodeBlob FieldElementsPerBlob [replicate 31 0 @ [1]]
       \<noteq> decodeBlob FieldElementsPerBlob [replicate 31 0 @ [0]]"
proof -
  have N: "length [replicate 31 0 @ [1 :: byte]] \<le> FieldElementsPerBlob"
      "length [replicate 31 0 @ [0 :: byte]] \<le> FieldElementsPerBlob"
    by (simp_all add: FieldElementsPerBlob_def)
  have "copyFieldElement (replicate 31 0 @ [1]) \<noteq> copyFieldElement (replicate 31 0 @ [0])"
    by (simp add: copyFieldElement_def)
  then show ?thesis
    by (simp add: decodeBlob_eq [OF N(1)] decodeBlob_eq [OF N(2)])
qed

subsection \<open>Per-blob verification\<close>

lemma VerifyBlobsSidecar_loop_Ok:
  "length ks = length bs \<Longrightarrow>
   VerifyBlobsSidecar_loop cc N ks bs = Ok () \<longleftrightarrow>
     (\<forall>i < length ks. blobCommitment cc N (bs ! i) = Ok (Some (ks ! i)))"
proof (induction ks bs rule: list_induct2)
  case Nil
  then show ?case by simp
next
  case (Cons k ks b bs)
  show ?case
  proof (cases "blobCommitment cc N b = Ok (Some k)")
    case True
    then show ?thesis
      using Cons.IH by (simp add: bind_result_def All_less_Suc2)
  next
    case False
    then have "VerifyBlobsSidecar_loop cc N (k # ks) (b # bs) \<noteq> Ok ()"
      by (auto simp: bind_result_def split: result.splits option.splits)
    moreover have "\<not> (\<forall>i < length (k # ks). blobCommitment cc N ((b # bs) ! i) = Ok (Some ((k # ks) ! i)))"
      using False by (auto intro: exI [of _ 0])
    ultimately show ?thesis by blast
  qed
qed

lemma VerifyBlobsSidecar_loop_first:
  "length ks = length bs \<Longrightarrow> i < length ks \<Longrightarrow>
   \<forall>j < i. blobCommitment cc N (bs ! j) = Ok (Some (ks ! j)) \<Longrightarrow>
   VerifyBlobsSidecar_loop cc N ks bs =
     (case blobCommitment cc N (bs ! i) of
        Ok None \<Rightarrow> Err ErrCouldNotComputeCommitment
      | Ok (Some kzg) \<Rightarrow>
          if kzg \<noteq> ks ! i then Err ErrMissmatchKzgs
          else VerifyBlobsSidecar_loop cc N (drop (Suc i) ks) (drop (Suc i) bs)
      | Err e \<Rightarrow> Err e
      | Panic \<Rightarrow> Panic)"
proof (induction ks bs arbitrary: i rule: list_induct2)
  case Nil
  then show ?case by simp
next
  case (Cons k ks b bs)
  show ?case
  proof (cases i)
    case 0
    then show ?thesis
      by (simp add: bind_result_def split: result.splits option.splits)
  next
    case (Suc i')
    have h: "blobCommitment cc N b = Ok (Some k)"
      using Cons.prems(2) [rule_format, of 0] Suc by simp
    have "\<forall>j < i'. blobCommitment cc N (bs ! j) = Ok (Some (ks ! j))"
      using Cons.prems(2) Suc by auto
    then have "VerifyBlobsSidecar_loop cc N ks bs =
       (case blobCommitment cc N (bs ! i') of
          Ok None \<Rightarrow> Err ErrCouldNotComputeCommitment
        | Ok (Some kzg) \<Rightarrow>
            if kzg \<noteq> ks ! i' then Err ErrMissmatchKzgs
            else VerifyBlobsSidecar_loop cc N (drop (Suc i') ks) (drop (Suc i') bs)
        | Err e \<Rightarrow> Err e
        | Panic \<Rightarrow> Panic)"
      using Cons.IH [of i'] Cons.prems(1) Suc by simp
    then show ?thesis
      unfolding Suc using h by (simp add: bind_result_def split: result.splits option.splits)
  qed
qed

lemma decodeBlob_loop_oversize:
  "length blob < length src \<Longrightarrow> i \<le> length blob \<Longrightarrow> decodeBlob_loop src i blob = Panic"
proof (induction src i blob rule: decodeBlob_loop.induct)
  case (1 src i blob)
  show ?case
  proof (cases "i < length blob")
    case False
    then show ?thesis
      using "1.prems" by (subst decodeBlob_loop.simps) simp
  next
    case True
    then have "decodeBlob_loop src (Suc i) (blob[i := copyFieldElement (src ! i)]) = Panic"
      using "1.IH" "1.prems" by simp
    then show ?thesis
      using True "1.prems" by (subst decodeBlob_loop.simps) simp
  qed
qed

lemma decodeBlob_oversize: "N < length src \<Longrightarrow> decodeBlob N src = Panic"
  by (simp add: decodeBlob_def decodeBlob_loop_oversize)

lemma blobCommitment_eq:
  "blobCommitment cc N src =
     (if length src \<le> N
      then Ok (cc (map (\<lambda>b. take 32 b @ replicate (32 - length b) 0) src
                   @ replicate (N - length src) (replicate 32 0)))
      else Panic)"
proof -
  have c: "copyFieldElement = (\<lambda>b. take 32 b @ replicate (32 - length b) 0)"
    by (rule ext) (simp add: copyFieldElement_def)
  show ?thesis
    by (simp add: blobCommitment_def bind_result_def decodeBlob_eq decodeBlob_oversize c)
qed

text \<open>
  C8. For a call that passes the slot, root and length checks, \<open>VerifyBlobsSidecar\<close>
  succeeds if and only if, for every index, the commitment computed from the decoded
  blob (each chunk copied into 32 bytes, the array filled up to \<open>N\<close> with zero
  elements) equals the expected one. At the first index that does not match, a
  commitment that differs gives \<open>ErrMissmatchKzgs\<close> and a failed computation gives
  \<open>ErrCouldNotComputeCommitment\<close>; a blob of more than \<open>N\<close> chunks cannot be decoded
  and panics there.
\<close>

theorem VerifyBlobsSidecar_recomputes:
  assumes "slot = BeaconBlockSlot_p0 sc"
    and "root = toBytes (BeaconBlockRoot_p0 sc)"
    and "length expectedKZGs = length (Blobs_p0 sc)"
  shows "let elems = (\<lambda>src. map (\<lambda>b. take 32 b @ replicate (32 - length b) 0) src
                          @ replicate (N - length src) (replicate 32 0));
             fits = (\<lambda>i. length (Blobs_p0 sc ! i) \<le> N);
             kzg = (\<lambda>i. cc (elems (Blobs_p0 sc ! i)));
             res = VerifyBlobsSidecar toBytes cc N slot root expectedKZGs sc
         in (res = Ok () \<longleftrightarrow> (\<forall>i < length expectedKZGs. fits i \<and> kzg i = Some (expectedKZGs ! i)))
          \<and> (\<forall>i < length expectedKZGs.
                (\<forall>j < i. fits j \<and> kzg j = Some (expectedKZGs ! j)) \<longrightarrow>
                (fits i \<and> kzg i \<noteq> None \<and> kzg i \<noteq> Some (expectedKZGs ! i) \<longrightarrow> res = Err ErrMissmatchKzgs)
              \<and> (fits i \<and> kzg i = None \<longrightarrow> res = Err ErrCouldNotComputeCommitment)
              \<and> (\<not> fits i \<longrightarrow> res = Panic))"
proof -
  let ?elems = "\<lambda>src. map (\<lambda>b. take 32 b @ replicate (32 - length b) 0) src
                          @ replicate (N - length src) (replicate 32 (0 :: byte))"
  let ?fits = "\<lambda>i. length (Blobs_p0 sc ! i) \<le> N"
  let ?kzg = "\<lambda>i. cc (?elems (Blobs_p0 sc ! i))"
  let ?res = "VerifyBlobsSidecar toBytes cc N slot root expectedKZGs sc"
  have e: "?res = VerifyBlobsSidecar_loop cc N expectedKZGs (Blobs_p0 sc)"
    using assms by (simp add: VerifyBlobsSidecar_def)
  have m: "blobCommitment cc N (Blobs_p0 sc ! i) = Ok (Some k) \<longleftrightarrow> ?fits i \<and> ?kzg i = Some k" for i k
    by (simp add: blobCommitment_eq)
  have 1: "?res = Ok () \<longleftrightarrow> (\<forall>i < length expectedKZGs. ?fits i \<and> ?kzg i = Some (expectedKZGs ! i))"
    unfolding e using VerifyBlobsSidecar_loop_Ok [OF assms(3), of cc N] by (simp add: m)
  have first: "?res =
      (case blobCommitment cc N (Blobs_p0 sc ! i) of
        Ok None \<Rightarrow> Err ErrCouldNotComputeCommitment
      | Ok (Some kzg) \<Rightarrow>
          if kzg \<noteq> expectedKZGs ! i then Err ErrMissmatchKzgs
          else VerifyBlobsSidecar_loop cc N (drop (Suc i) expectedKZGs) (drop (Suc i) (Blobs_p0 sc))
      | Err e \<Rightarrow> Err e
      | Panic \<Rightarrow> Panic)"
    if "i < length expectedKZGs" "\<forall>j < i. ?fits j \<and> ?kzg j = Some (expectedKZGs ! j)" for i
    unfolding e using that by (intro VerifyBlobsSidecar_loop_first [OF assms(3)]) (simp_all add: m)
  have 2: "?res = Err ErrMissmatchKzgs"
    if "i < length expectedKZGs" "\<forall>j < i. ?fits j \<and> ?kzg j = Some (expectedKZGs ! j)"
      "?fits i" "?kzg i \<noteq> None" "?kzg i \<noteq> Some (expectedKZGs ! i)" for i
    using first [OF that(1,2)] that(3,4,5) by (auto simp: blobCommitment_eq)
  have 3: "?res = Err ErrCouldNotComputeCommitment"
    if "i < length expectedKZGs" "\<forall>j < i. ?fits j \<and> ?kzg j = Some (expectedKZGs ! j)"
      "?fits i" "?kzg i = None" for i
    using first [OF that(1,2)] that(3,4) by (simp add: blobCommitment_eq)
  have 4: "?res = Panic"
    if "i < length expectedKZGs" "\<forall>j < i. ?fits j \<and> ?kzg j = Some (expectedKZGs ! j)"
      "\<not> ?fits i" for i
    using first [OF that(1,2)] that(3) by (simp add: blobCommitment_eq)
  show ?thesis
    unfolding Let_def using 1 2 3 4 by blast
qed

theorem VerifyBlobsSidecar_recomputes_witness:
  "VerifyBlobsSidecar (pad_bytes 32) (\<lambda>blob. Some (pad_bytes 48 (blob ! 0))) FieldElementsPerBlob
      7 (replicate 32 0) [replicate 31 0 @ [1] @ replicate 16 0]
      \<lparr>BeaconBlockRoot_p0 = [], BeaconBlockSlot_p0 = 7, Blobs_p0 = [[replicate 31 0 @ [1]]]\<rparr> = Ok ()
   \<and> VerifyBlobsSidecar (pad_bytes 32) (\<lambda>blob. Some (pad_bytes 48 (blob ! 0))) FieldElementsPerBlob
      7 (replicate 32 0) [replicate 31 0 @ [0] @ replicate 16 0]
      \<lparr>BeaconBlockRoot_p0 = [], BeaconBlockSlot_p0 = 7, Blobs_p0 = [[replicate 31 0 @ [1]]]\<rparr>
        = Err ErrMissmatchKzgs
   \<and> VerifyBlobsSidecar (pad_bytes 32) (\<lambda>blob. None) FieldElementsPerBlob
      7 (replicate 32 0) [replicate 48 0]
      \<lparr>BeaconBlockRoot_p0 = [], BeaconBlockSlot_p0 = 7, Blobs_p0 = [[replicate 31 0 @ [1]]]\<rparr>
        = Err ErrCouldNotComputeCommitment
   \<and> VerifyBlobsSidecar (pad_bytes 32) (\<lambda>blob. Some (pad_bytes 48 (blob ! 0))) FieldElementsPerBlob
      7 (replicate 32 0) [replicate 48 0]
      \<lparr>BeaconBlockRoot_p0 = [], BeaconBlockSlot_p0 = 7,
         Blobs_p0 = [replicate (Suc FieldElementsPerBlob) []]\<rparr> = Panic"
proof -
  let ?c = "replicate 31 0 @ [1 :: byte]"
  let ?sc = "\<lparr>BeaconBlockRoot_p0 = [], BeaconBlockSlot_p0 = 7, Blobs_p0 = [[?c]]\<rparr>"
  let ?big = "\<lparr>BeaconBlockRoot_p0 = [], BeaconBlockSlot_p0 = 7,
      Blobs_p0 = [replicate (Suc FieldElementsPerBlob) ([] :: bytes)]\<rparr>"
  let ?cc = "\<lambda>blob :: bytes list. Some (pad_bytes 48 (blob ! 0))"
  have k: "pad_bytes 48 (?c) = replicate 31 0 @ [1] @ replicate 16 0"
    by (simp add: pad_bytes_def)
  have ne: "replicate 31 0 @ [1 :: byte] @ replicate 16 0 \<noteq> replicate 31 0 @ [0] @ replicate 16 0"
    by simp
  have N: "Suc 0 \<le> FieldElementsPerBlob"
    by (simp add: FieldElementsPerBlob_def)
  have a: "VerifyBlobsSidecar (pad_bytes 32) ?cc FieldElementsPerBlob 7 (replicate 32 0)
      [replicate 31 0 @ [1] @ replicate 16 0] ?sc = Ok ()"
    using VerifyBlobsSidecar_recomputes [where slot = 7 and sc = ?sc and root = "replicate 32 0"
        and toBytes = "pad_bytes 32" and expectedKZGs = "[replicate 31 0 @ [1] @ replicate 16 0]"
        and cc = ?cc and N = FieldElementsPerBlob] N
    by (simp add: Let_def k pad_bytes_def)
  have b: "VerifyBlobsSidecar (pad_bytes 32) ?cc FieldElementsPerBlob 7 (replicate 32 0)
      [replicate 31 0 @ [0] @ replicate 16 0] ?sc = Err ErrMissmatchKzgs"
    using VerifyBlobsSidecar_recomputes [where slot = 7 and sc = ?sc and root = "replicate 32 0"
        and toBytes = "pad_bytes 32" and expectedKZGs = "[replicate 31 0 @ [0] @ replicate 16 0]"
        and cc = ?cc and N = FieldElementsPerBlob] N ne
    by (simp add: Let_def k pad_bytes_def)
  have c: "VerifyBlobsSidecar (pad_bytes 32) (\<lambda>blob. None) FieldElementsPerBlob 7 (replicate 32 0)
      [replicate 48 0] ?sc = Err ErrCouldNotComputeCommitment"
    using VerifyBlobsSidecar_recomputes [where slot = 7 and sc = ?sc and root = "replicate 32 0"
        and toBytes = "pad_bytes 32" and expectedKZGs = "[replicate 48 0]"
        and cc = "\<lambda>blob. None" and N = FieldElementsPerBlob] N
    by (simp add: Let_def pad_bytes_def)
  have d: "VerifyBlobsSidecar (pad_bytes 32) ?cc FieldElementsPerBlob 7 (replicate 32 0)
      [replicate 48 0] ?big = Panic"
    using VerifyBlobsSidecar_recomputes [where slot = 7 and sc = ?big and root = "replicate 32 0"
        and toBytes = "pad_bytes 32" and expectedKZGs = "[replicate 48 0]"
        and cc = ?cc and N = FieldElementsPerBlob]
    by (simp add: Let_def pad_bytes_def)
  show ?thesis using a b c d by simp
qed

subsection \<open>bitReversalPermutation\<close>

lemma bit_length_pow2: "bit_length (2 ^ k) = Suc k"
proof (induction k)
  case 0
  have "bit_length 1 = Suc (bit_length 0)"
    by (subst bit_length.simps) simp
  also have "bit_length 0 = 0"
    by (subst bit_length.simps) simp
  finally show ?case by simp
next
  case (Suc k)
  have "bit_length (2 ^ Suc k) = Suc (bit_length (2 ^ Suc k div 2))"
    by (subst bit_length.simps) simp
  then show ?case using Suc by simp
qed

lemma unat_pow2_64:
  assumes "k < 64"
  shows "unat (of_nat (2 ^ k) :: 64 word) = 2 ^ k"
proof -
  have "(2 :: nat) ^ k < 2 ^ 64"
    using assms by (rule power_strict_increasing) simp
  then show ?thesis
    by (simp add: unat_of_nat del: of_nat_power)
qed

lemma Len64_pow2: "k < 64 \<Longrightarrow> Len64 (of_nat (2 ^ k)) = Suc k"
  by (simp add: Len64_def unat_pow2_64 bit_length_pow2 del: of_nat_power)

lemma isPowerOfTwo_pow2: "k < 64 \<Longrightarrow> isPowerOfTwo (of_nat (2 ^ k))"
proof -
  assume k: "k < 64"
  have "(2 ^ k :: 64 word) AND (2 ^ k - 1) = 0"
    by (rule bit_eqI) (auto simp: bit_simps simp flip: mask_eq_exp_minus_1)
  moreover have "(2 ^ k :: 64 word) \<noteq> 0"
    using k by simp
  ultimately show ?thesis
    by (simp add: isPowerOfTwo_def word_greater_zero_iff)
qed

lemma bit_reverse_bits: "bit (reverse_bits k i) n \<longleftrightarrow> n < k \<and> bit i (k - Suc n)"
  by (auto simp: reverse_bits_def bit_horner_sum_bit_iff rev_nth)

lemma reverse_bits_less: "reverse_bits k i < 2 ^ k"
proof -
  have "take_bit k (reverse_bits k i) = reverse_bits k i"
    by (rule bit_eqI) (auto simp: bit_simps bit_reverse_bits)
  then show ?thesis
    by (simp add: take_bit_nat_eq_self_iff)
qed

lemma reverse_bits_involution:
  assumes "i < 2 ^ k"
  shows "reverse_bits k (reverse_bits k i) = i"
proof (rule bit_eqI)
  fix n
  have i: "take_bit k i = i" using assms by (simp add: take_bit_nat_eq_self)
  have "bit i n \<Longrightarrow> n < k"
    using i by (metis bit_take_bit_iff)
  then show "bit (reverse_bits k (reverse_bits k i)) n \<longleftrightarrow> bit i n"
    by (auto simp: bit_reverse_bits)
qed

lemma bitReversalIndex_pow2:
  assumes "k < 64" and "i < 2 ^ k"
  shows "bitReversalIndex (2 ^ k) i = reverse_bits k i"
proof -
  have s: "65 - Len64 (of_nat (2 ^ k)) = 64 - k"
    using assms(1) by (simp add: Len64_pow2 del: of_nat_power)
  have i: "take_bit k i = i" using assms by (simp add: take_bit_nat_eq_self)
  have ik: "bit i n \<Longrightarrow> n < k" for n
    using i by (metis bit_take_bit_iff)
  have "unat (drop_bit (64 - k) (word_reverse (of_nat i :: 64 word))) = reverse_bits k i"
  proof (rule bit_eqI)
    fix n
    show "bit (unat (drop_bit (64 - k) (word_reverse (of_nat i :: 64 word)))) n
        \<longleftrightarrow> bit (reverse_bits k i) n"
    proof (cases "n < k")
      case True
      then have "64 - k + n < 64" "64 - Suc (64 - k + n) = k - Suc n" "k - Suc n < 64"
        using assms(1) by simp_all
      then show ?thesis
        using True assms(1) by (simp add: bit_unsigned_iff bit_drop_bit_eq bit_word_reverse_iff bit_reverse_bits bit_of_nat_iff)
    next
      case False
      then have "\<not> 64 - k + n < 64" using assms(1) by simp
      then show ?thesis
        using False by (simp add: bit_unsigned_iff bit_drop_bit_eq bit_word_reverse_iff bit_reverse_bits)
    qed
  qed
  then show ?thesis
    unfolding bitReversalIndex_def s Reverse64_def .
qed

lemma bitReversalPermutation_loop_eq:
  assumes "k < 64"
  shows "length l = 2 ^ k \<Longrightarrow> length out = 2 ^ k \<Longrightarrow> i \<le> 2 ^ k \<Longrightarrow>
    bitReversalPermutation_loop (2 ^ k) l i out =
      Ok (take i out @ map (\<lambda>i. l ! reverse_bits k i) [i..<2 ^ k])"
proof (induction "2 ^ k :: nat" l i out rule: bitReversalPermutation_loop.induct)
  case (1 l i out)
  show ?case
  proof (cases "i < length l")
    case False
    then have "i = 2 ^ k" using "1.prems" by arith
    then show ?thesis
      using "1.prems" by (subst bitReversalPermutation_loop.simps) simp
  next
    case True
    then have ik: "i < 2 ^ k" using "1.prems" by simp
    let ?j = "bitReversalIndex (2 ^ k) i"
    have j: "?j = reverse_bits k i"
      using assms ik by (rule bitReversalIndex_pow2)
    have jl: "?j < length l"
      using reverse_bits_less [of k i] "1.prems" by (simp add: j)
    have io: "i < length out" using ik "1.prems" by simp
    let ?out' = "out[i := l ! ?j]"
    have IH: "bitReversalPermutation_loop (2 ^ k) l (Suc i) ?out' =
        Ok (take (Suc i) ?out' @ map (\<lambda>i. l ! reverse_bits k i) [Suc i..<2 ^ k])"
      using "1.hyps" [OF True refl] jl io ik "1.prems" by simp
    have tk: "take (Suc i) ?out' = take i out @ [l ! reverse_bits k i]"
      using io by (simp add: take_Suc_conv_app_nth j)
    have up: "[i..<2 ^ k] = i # [Suc i..<2 ^ k]"
      using ik by (simp add: upt_conv_Cons)
    have "bitReversalPermutation_loop (2 ^ k) l i out =
        bitReversalPermutation_loop (2 ^ k) l (Suc i) ?out'"
      using True jl io by (subst bitReversalPermutation_loop.simps) (simp add: Let_def)
    then show ?thesis
      by (simp add: IH tk up)
  qed
qed

lemma bitReversalPermutation_eq:
  assumes "k < 64" and "length l = 2 ^ k"
  shows "bitReversalPermutation (2 ^ k) l = Ok (map (\<lambda>i. l ! reverse_bits k i) [0..<2 ^ k])"
  using assms bitReversalPermutation_loop_eq [OF assms, of "replicate (2 ^ k) 0" 0]
  by (simp add: bitReversalPermutation_def isPowerOfTwo_pow2 del: of_nat_power)

lemma reverse_bits_2:
  "reverse_bits 2 0 = 0" "reverse_bits 2 (Suc 0) = 2" "reverse_bits 2 2 = 1" "reverse_bits 2 3 = 3"
  unfolding reverse_bits_def by code_simp+

lemma reverse_bits_12: "reverse_bits 12 0 = 0" "reverse_bits 12 (Suc 0) = 2048"
  unfolding reverse_bits_def by code_simp+

lemma bitReversalIndex_4096: "bitReversalIndex 4096 0 = 0" "bitReversalIndex 4096 (Suc 0) = 2048"
proof -
  have p: "(4096 :: nat) = 2 ^ 12" by simp
  show "bitReversalIndex 4096 0 = 0"
    unfolding p using bitReversalIndex_pow2 [of 12 0] by (simp add: reverse_bits_12)
  show "bitReversalIndex 4096 (Suc 0) = 2048"
    unfolding p using bitReversalIndex_pow2 [of 12 "Suc 0"] by (simp add: reverse_bits_12)
qed

text \<open>
  C5. The claim: for every sequence whose length is a power of two, applying
  \<open>bitReversalPermutation\<close> twice gives the sequence back, and one application gives
  \<open>output[i] = input[reverse_bits(i)]\<close> at the bit width of the length. The code
  takes the bit width and the output length from \<open>params.FieldElementsPerBlob\<close>, not
  from the sequence. As amended: for every sequence of length exactly
  \<open>N = FieldElementsPerBlob = 2 ^ k\<close>, one application returns a new sequence of length
  \<open>N\<close> with \<open>output[i] = input[reverse_bits k i]\<close>, and applying it twice gives the
  sequence back.
\<close>

theorem bitReversalPermutation_involution:
  assumes "N = 2 ^ k" and "k < 64" and "length l = N"
  shows "\<exists>out. bitReversalPermutation N l = Ok out
           \<and> length out = N
           \<and> (\<forall>i < N. out ! i = l ! reverse_bits k i)
           \<and> bitReversalPermutation N out = Ok l"
proof -
  let ?out = "map (\<lambda>i. l ! reverse_bits k i) [0..<2 ^ k]"
  have l: "length l = 2 ^ k" using assms by simp
  have 1: "bitReversalPermutation (2 ^ k) l = Ok ?out"
    using assms(2) l by (rule bitReversalPermutation_eq)
  have len: "length ?out = 2 ^ k" by simp
  have 2: "bitReversalPermutation (2 ^ k) ?out = Ok (map (\<lambda>i. ?out ! reverse_bits k i) [0..<2 ^ k])"
    using assms(2) len by (rule bitReversalPermutation_eq)
  have "map (\<lambda>i. ?out ! reverse_bits k i) [0..<2 ^ k] = l"
  proof (rule nth_equalityI)
    show "length (map (\<lambda>i. ?out ! reverse_bits k i) [0..<2 ^ k]) = length l"
      using l by simp
  next
    fix i assume "i < length (map (\<lambda>i. ?out ! reverse_bits k i) [0..<2 ^ k])"
    then have i: "i < 2 ^ k" by simp
    then show "map (\<lambda>i. ?out ! reverse_bits k i) [0..<2 ^ k] ! i = l ! i"
      using reverse_bits_less [of k i] by (simp add: reverse_bits_involution)
  qed
  then have 3: "bitReversalPermutation (2 ^ k) ?out = Ok l"
    using 2 by simp
  show ?thesis
    unfolding assms(1) using 1 3 by simp
qed

theorem bitReversalPermutation_involution_witness:
  "bitReversalPermutation 4 [10, 11, 12, 13] = Ok [10, 12, 11, 13]
   \<and> bitReversalPermutation 4 [10, 12, 11, 13] = Ok [10, 11, 12, 13]"
proof -
  obtain out where out: "bitReversalPermutation 4 [10, 11, 12, 13] = Ok out" "length out = 4"
      "\<forall>i < 4. out ! i = [10, 11, 12, 13] ! reverse_bits 2 i"
      "bitReversalPermutation 4 out = Ok [10, 11, 12, 13]"
    using bitReversalPermutation_involution [of 4 2 "[10, 11, 12, 13]"] by auto
  have "out ! 0 = 10" "out ! 1 = 12" "out ! 2 = 11" "out ! 3 = 13"
    using out(3) by (simp_all add: reverse_bits_2)
  then have "out = [10, 12, 11, 13]"
    using out(2) by (auto simp: list_eq_iff_nth_eq less_Suc_eq numeral_Bit0 [of "num.Bit0 num.One"]
        numeral_2_eq_2 numeral_3_eq_3)
  then show ?thesis using out(1,4) by simp
qed

text \<open>
  The claim as stated fails: with \<open>FieldElementsPerBlob = 4096\<close>, a sequence of length
  2 makes the function read index 2048 and panic.
\<close>

theorem bitReversalPermutation_counterexample:
  "isPowerOfTwo (of_nat (length [5 :: Fr, 6]))
   \<and> bitReversalPermutation FieldElementsPerBlob [5, 6] = Panic"
proof -
  have p: "isPowerOfTwo (of_nat (length [5 :: Fr, 6]))" "isPowerOfTwo (of_nat 4096)"
    by (simp_all add: isPowerOfTwo_def)
  have 1: "bitReversalPermutation_loop 4096 [5, 6] (Suc 0) out = Panic" for out
    by (subst bitReversalPermutation_loop.simps) (simp add: bitReversalIndex_4096)
  have 0: "bitReversalPermutation_loop 4096 [5, 6] 0 (replicate 4096 0) = Panic"
    by (subst bitReversalPermutation_loop.simps) (simp add: bitReversalIndex_4096 1)
  show ?thesis
    using p 0 by (simp add: bitReversalPermutation_def FieldElementsPerBlob_def)
qed

end
